theory Spec2Isabelle
  imports Main
begin

section \<open>The component engine of jqomp\<close>

text \<open>
  The source is \<^verbatim>\<open>src/component_engine.js\<close>. It holds the engine
  (\<^verbatim>\<open>ComponentEngine\<close> with its \<^verbatim>\<open>Component\<close>) and a second, independent
  variant (\<^verbatim>\<open>Application\<close> with its own \<^verbatim>\<open>Component\<close>).

  Modelling decisions, all of them about what lies outside the source:
  \<^item> a user-supplied function (init, remove, an event listener, an action callback) is
    opaque. It is identified by a number, and calling it appends one entry to a trace of
    observable effects; it is assumed to return normally and not to call back into the
    engine. The default \<^verbatim>\<open>init\<close> and \<^verbatim>\<open>remove\<close> of the prototype warn on the
    console. A guard is represented by the verdict it returns, and its call is traced too;
  \<^item> the DOM query \<^verbatim>\<open>$(selector)\<close> is a parameter \<open>page\<close> giving the matched
    elements of a selector string;
  \<^item> a JavaScript object used as a dictionary is an association list in insertion order
    with distinct keys. Keys are assumed to be ordinary names: neither array indices (which
    JavaScript enumerates first) nor names every object inherits from its prototype;
  \<^item> the objects of a component tree are distinct, so that the tree is a value; every
    \<^verbatim>\<open>Component\<close> object carries an identity \<open>oid\<close>, which is what \<^verbatim>\<open>===\<close> compares;
  \<^item> an exception is an outcome \<open>Threw\<close> that carries the state at the throw.
\<close>

subsection \<open>Values, effects, outcomes\<close>

type_synonym fn = nat
type_synonym elem = nat
type_synonym oid = nat

datatype jsval = JUndefined | JNum int | JStr string | JObj "(string \<times> jsval) list"

datatype effect =
    GuardCalled oid
  | InitCalled oid
  | RemoveCalled oid
  | ListenerCalled fn jsval
  | ActionCalled fn elem oid
  | ConsoleLog string
  | ConsoleWarn string
  | ConsoleError string
  | DelegateInstalled string string

datatype error = TypeError | Thrown string

datatype 'a outcome = Returned 'a | Threw error 'a

fun state_of :: "'a outcome \<Rightarrow> 'a" where
  "state_of (Returned s) = s"
| "state_of (Threw e s) = s"

fun thrown :: "'a outcome \<Rightarrow> error option" where
  "thrown (Returned s) = None"
| "thrown (Threw e s) = Some e"

fun and_then :: "'a outcome \<Rightarrow> ('a \<Rightarrow> 'a outcome) \<Rightarrow> 'a outcome" where
  "and_then (Returned s) f = f s"
| "and_then (Threw e s) f = Threw e s"

subsection \<open>Objects as ordered dictionaries\<close>

fun put :: "'k \<Rightarrow> 'v \<Rightarrow> ('k \<times> 'v) list \<Rightarrow> ('k \<times> 'v) list" where
  "put k v [] = [(k, v)]"
| "put k v ((k', v') # m) = (if k = k' then (k, v) # m else (k', v') # put k v m)"

fun delete_key :: "'k \<Rightarrow> ('k \<times> 'v) list \<Rightarrow> ('k \<times> 'v) list" where
  "delete_key k [] = []"
| "delete_key k ((k', v') # m) = (if k = k' then delete_key k m else (k', v') # delete_key k m)"

text \<open>A selector is used when it is truthy: present and not the empty string.\<close>

fun truthy :: "string option \<Rightarrow> bool" where
  "truthy None = False"
| "truthy (Some s) = (s \<noteq> [])"

definition query :: "(string \<Rightarrow> elem list) \<Rightarrow> string option \<Rightarrow> elem list" where
  "query page sel = (case sel of None \<Rightarrow> [] | Some s \<Rightarrow> page s)"

subsection \<open>Component\<close>

text \<open>
  An entry of \<^verbatim>\<open>this.actions\<close> is the array that \<^verbatim>\<open>addAction\<close> builds, or a single
  function given in the options (the \<^verbatim>\<open>else\<close> branch of \<^verbatim>\<open>executeAction\<close>).
\<close>

datatype action_entry = Callbacks "fn list" | Single fn

record cfields =
  name :: string
  oid :: oid
  selector :: "string option"
  guard :: bool
  init_fn :: "fn option"
  remove_fn :: "fn option"
  actions :: "(string \<times> action_entry) list"
  enabled :: bool
  engine :: bool
  elements :: "elem list option"
  parent :: "oid option"

datatype component = Component (attrs: cfields) (subcomponents: "component list")

text \<open>\<^verbatim>\<open>new Component(name, options)\<close> for the options the engine reads.\<close>

definition new_Component ::
  "string \<Rightarrow> oid \<Rightarrow> string option \<Rightarrow> bool \<Rightarrow> fn option \<Rightarrow> fn option \<Rightarrow> component list \<Rightarrow> component" where
  "new_Component n i sel g ini rem subs =
     Component \<lparr>name = n, oid = i, selector = sel, guard = g, init_fn = ini, remove_fn = rem,
                actions = [], enabled = False, engine = False, elements = None, parent = None\<rparr> subs"

definition upd :: "(cfields \<Rightarrow> cfields) \<Rightarrow> component \<Rightarrow> component" where
  "upd f c = Component (f (attrs c)) (subcomponents c)"

definition tryToSetElements :: "(string \<Rightarrow> elem list) \<Rightarrow> component \<Rightarrow> component \<times> bool" where
  "tryToSetElements page c =
     (let els = query page (selector (attrs c))
      in (if length els > 0 then upd (\<lambda>f. f\<lparr>elements := Some els\<rparr>) c else c, els \<noteq> []))"

definition quoted :: "string \<Rightarrow> string" where
  "quoted s = [CHR 0x27] @ s @ [CHR 0x27]"

definition dquoted :: "string \<Rightarrow> string" where
  "dquoted s = [CHR 0x22] @ s @ [CHR 0x22]"

definition call_init :: "component \<Rightarrow> effect list" where
  "call_init c = InitCalled (oid (attrs c)) # (case init_fn (attrs c) of
       Some f \<Rightarrow> []
     | None \<Rightarrow> [ConsoleWarn (''Function '' @ quoted ''init'' @ '' is not specified for the '' @ quoted (name (attrs c)) @ '' component.'')])"

definition call_remove :: "component \<Rightarrow> effect list" where
  "call_remove c = RemoveCalled (oid (attrs c)) # (case remove_fn (attrs c) of
       Some f \<Rightarrow> []
     | None \<Rightarrow> [ConsoleWarn (''Function '' @ quoted ''remove'' @ '' is not specified for the '' @ quoted (name (attrs c)) @ '' component.'')])"

text \<open>
  \<^verbatim>\<open>this.actions[name] = this.actions[name] || []; this.actions[name].push(callback)\<close>:
  an entry that is a single function has no \<^verbatim>\<open>push\<close>, and the call throws.
\<close>

definition addAction :: "string \<Rightarrow> fn \<Rightarrow> component \<Rightarrow> component outcome" where
  "addAction n cb c =
     (case map_of (actions (attrs c)) n of
        None \<Rightarrow> Returned (upd (\<lambda>f. f\<lparr>actions := put n (Callbacks [cb]) (actions f)\<rparr>) c)
      | Some (Callbacks cbs) \<Rightarrow>
          Returned (upd (\<lambda>f. f\<lparr>actions := put n (Callbacks (cbs @ [cb])) (actions f)\<rparr>) c)
      | Some (Single g) \<Rightarrow> Threw TypeError c)"

text \<open>
  \<^verbatim>\<open>this.actions.length\<close>, converted to a number by the comparison \<^verbatim>\<open>i < this.actions.length\<close>.
  \<^verbatim>\<open>this.actions\<close> is the dictionary of all actions, so its \<^verbatim>\<open>length\<close> is the entry
  registered under the action name "length", if any. No entry is \<^verbatim>\<open>undefined\<close>, which
  converts to NaN; an array converts through its string, which is the empty string (the
  number 0) for the empty array and the source text of its functions (NaN) otherwise; a
  function converts to NaN. \<open>None\<close> stands for NaN, and a comparison with NaN is false.
\<close>

definition actions_length :: "(string \<times> action_entry) list \<Rightarrow> nat option" where
  "actions_length acts =
     (case map_of acts ''length'' of
        None \<Rightarrow> None
      | Some (Callbacks []) \<Rightarrow> Some 0
      | Some (Callbacks (f # fs)) \<Rightarrow> None
      | Some (Single f) \<Rightarrow> None)"

definition js_less :: "nat \<Rightarrow> nat option \<Rightarrow> bool" where
  "js_less i bound = (case bound of None \<Rightarrow> False | Some n \<Rightarrow> i < n)"

text \<open>
  The loop \<^verbatim>\<open>for (var i = 0; i < this.actions.length; i++) this.actions[name][i].apply(element, [this])\<close>
  from index \<open>i\<close>; reading past the end of the array gives \<^verbatim>\<open>undefined\<close>, whose
  \<^verbatim>\<open>apply\<close> throws.
\<close>

function call_actions :: "nat option \<Rightarrow> fn list \<Rightarrow> elem \<Rightarrow> oid \<Rightarrow> nat \<Rightarrow> effect list \<Rightarrow> effect list outcome" where
  "call_actions bound cbs el c i tr =
     (if js_less i bound then
        (if i < length cbs then call_actions bound cbs el c (Suc i) (tr @ [ActionCalled (cbs ! i) el c])
         else Threw TypeError tr)
      else Returned tr)"
  by pat_completeness auto
termination
  by (relation "measure (\<lambda>(bound, cbs, el, c, i, tr). the bound - i)")
     (auto simp: js_less_def split: option.splits)

declare call_actions.simps [simp del]

text \<open>\<^verbatim>\<open>executeAction(name, element)\<close>, and the loop over the subcomponents.\<close>

fun executeAction :: "string \<Rightarrow> elem \<Rightarrow> component \<Rightarrow> effect list \<Rightarrow> effect list outcome"
  and executeAction_subs :: "string \<Rightarrow> elem \<Rightarrow> component list \<Rightarrow> effect list \<Rightarrow> effect list outcome" where
  "executeAction n el (Component f subs) tr =
     and_then
       (case map_of (actions f) n of
          None \<Rightarrow> Returned tr
        | Some (Callbacks cbs) \<Rightarrow> call_actions (actions_length (actions f)) cbs el (oid f) 0 tr
        | Some (Single cb) \<Rightarrow> Returned (tr @ [ActionCalled cb el (oid f)]))
       (executeAction_subs n el subs)"
| "executeAction_subs n el [] tr = Returned tr"
| "executeAction_subs n el (s # ss) tr = and_then (executeAction n el s tr) (executeAction_subs n el ss)"

subsection \<open>ComponentEngine\<close>

text \<open>
  \<^verbatim>\<open>_initComponent(component, scopeStr)\<close>. The first call is made without
  \<^verbatim>\<open>scopeStr\<close>, which then is the component's name. A subcomponent is asked for its
  guard only; its selector is not read.
\<close>

fun initComponent :: "component \<Rightarrow> string \<Rightarrow> effect list \<Rightarrow> component \<times> effect list"
  and initSubcomponents :: "oid \<Rightarrow> string \<Rightarrow> component list \<Rightarrow> effect list \<Rightarrow> component list \<times> effect list" where
  "initComponent (Component f subs) scopeStr tr =
     (let f1 = f\<lparr>engine := True\<rparr>;
          tr1 = tr @ call_init (Component f1 subs);
          f2 = f1\<lparr>enabled := True\<rparr>;
          tr2 = tr1 @ [ConsoleLog (''Component '' @ quoted scopeStr @ '' initialized.'')];
          (subs', tr3) = initSubcomponents (oid f) scopeStr subs tr2
      in (Component f2 subs', tr3))"
| "initSubcomponents p scopeStr [] tr = ([], tr)"
| "initSubcomponents p scopeStr (Component g gsubs # ss) tr =
     (let tr1 = tr @ [GuardCalled (oid g)] in
      if guard g then
        (let (s', tr2) = initComponent (Component (g\<lparr>parent := Some p\<rparr>) gsubs)
                            (scopeStr @ ''.'' @ name g) tr1;
             (ss', tr3) = initSubcomponents p scopeStr ss tr2
         in (s' # ss', tr3))
      else
        (let (ss', tr3) = initSubcomponents p scopeStr ss tr1
         in (Component g gsubs # ss', tr3)))"

text \<open>
  The engine. \<open>owner\<close> is the \<^verbatim>\<open>component\<close> property that
  \<^verbatim>\<open>Component.prototype.addEventListener\<close> writes on a listener function, kept with the
  engine because a function has no attrs here; \<open>trace\<close> is the sequence of observable
  effects so far.
\<close>

record ComponentEngine =
  components :: "(string \<times> component) list"
  eventListeners :: "(string \<times> fn list) list"
  initialized :: bool
  deferredEvents :: "(string \<times> jsval) list"
  owner :: "(fn \<times> oid) list"
  trace :: "effect list"

definition new_ComponentEngine :: ComponentEngine where
  "new_ComponentEngine =
     \<lparr>components = [], eventListeners = [], initialized = False, deferredEvents = [],
      owner = [], trace = []\<rparr>"

text \<open>The argument of \<^verbatim>\<open>getComponent\<close> and its callers: a name or a component.\<close>

datatype comp_arg = ByName string | ByObject component

fun key_of :: "comp_arg \<Rightarrow> string" where
  "key_of (ByName n) = n"
| "key_of (ByObject c) = name (attrs c)"

definition getComponent :: "ComponentEngine \<Rightarrow> comp_arg \<Rightarrow> component option" where
  "getComponent w arg = map_of (components w) (key_of arg)"

text \<open>A write to a field of the object stored under a key.\<close>

definition modify :: "'k \<Rightarrow> ('v \<Rightarrow> 'v) \<Rightarrow> ('k \<times> 'v) list \<Rightarrow> ('k \<times> 'v) list" where
  "modify k f m = map (\<lambda>(k', v). if k' = k then (k', f v) else (k', v)) m"

definition dispatchEvent :: "ComponentEngine \<Rightarrow> string \<Rightarrow> jsval \<Rightarrow> ComponentEngine" where
  "dispatchEvent w ev d =
     (if initialized w then
        (case map_of (eventListeners w) ev of
           Some ls \<Rightarrow> w\<lparr>trace := trace w @ map (\<lambda>f. ListenerCalled f d) ls\<rparr>
         | None \<Rightarrow> w)
      else w\<lparr>deferredEvents := deferredEvents w @ [(ev, d)]\<rparr>)"

definition addEventListener :: "ComponentEngine \<Rightarrow> string \<Rightarrow> fn \<Rightarrow> ComponentEngine" where
  "addEventListener w ev f =
     w\<lparr>eventListeners :=
         put ev (case map_of (eventListeners w) ev of None \<Rightarrow> [f] | Some ls \<Rightarrow> ls @ [f])
           (eventListeners w)\<rparr>"

text \<open>
  \<^verbatim>\<open>indexOf\<close> gives -1 for an absent element, and \<^verbatim>\<open>splice(start, 1)\<close> counts a
  negative start from the end of the array.
\<close>

fun indexOf :: "'a \<Rightarrow> 'a list \<Rightarrow> int" where
  "indexOf x [] = -1"
| "indexOf x (y # ys) = (if x = y then 0 else (let r = indexOf x ys in if r < 0 then -1 else r + 1))"

definition splice1 :: "int \<Rightarrow> 'a list \<Rightarrow> 'a list" where
  "splice1 start xs =
     (let len = int (length xs);
          actualStart = (if start < 0 then max (len + start) 0 else min start len);
          deleteCount = min 1 (len - actualStart)
      in take (nat actualStart) xs @ drop (nat (actualStart + deleteCount)) xs)"

definition removeEventListener :: "ComponentEngine \<Rightarrow> string \<Rightarrow> fn \<Rightarrow> ComponentEngine" where
  "removeEventListener w ev f =
     (case map_of (eventListeners w) ev of
        None \<Rightarrow> w
      | Some ls \<Rightarrow> w\<lparr>eventListeners := put ev (splice1 (indexOf f ls) ls) (eventListeners w)\<rparr>)"

text \<open>\<^verbatim>\<open>Component.prototype.addEventListener\<close>: tag the listener, then hand it to the engine.\<close>

definition Component_addEventListener ::
  "ComponentEngine \<Rightarrow> component \<Rightarrow> string \<Rightarrow> fn \<Rightarrow> ComponentEngine outcome" where
  "Component_addEventListener w c ev f =
     (let w1 = w\<lparr>owner := put f (oid (attrs c)) (owner w)\<rparr>
      in if engine (attrs c) then Returned (addEventListener w1 ev f) else Threw TypeError w1)"

text \<open>The first loop of \<^verbatim>\<open>init\<close>, over the registered components.\<close>

fun init_components ::
  "(string \<Rightarrow> elem list) \<Rightarrow> (string \<times> component) list \<Rightarrow> effect list
     \<Rightarrow> (string \<times> component) list \<times> effect list" where
  "init_components page [] tr = ([], tr)"
| "init_components page ((k, c) # rest) tr =
     (let (c1, found) = (if truthy (selector (attrs c)) then tryToSetElements page c else (c, True))
      in if found then
           (let tr1 = tr @ [GuardCalled (oid (attrs c1))] in
            if guard (attrs c1) then
              (let (c2, tr2) = initComponent c1 (name (attrs c1)) tr1;
                   (rest', tr3) = init_components page rest tr2
               in ((k, c2) # rest', tr3))
            else
              (let (rest', tr3) = init_components page rest tr1 in ((k, c1) # rest', tr3)))
         else
           (let (rest', tr3) = init_components page rest tr in ((k, c1) # rest', tr3)))"

definition init :: "(string \<Rightarrow> elem list) \<Rightarrow> ComponentEngine \<Rightarrow> ComponentEngine" where
  "init page w =
     (let (cs, tr) = init_components page (components w) (trace w);
          w1 = w\<lparr>components := cs, trace := tr, initialized := True\<rparr>;
          w2 = fold (\<lambda>(ev, d) w'. dispatchEvent w' ev d) (deferredEvents w1) w1;
          w3 = w2\<lparr>deferredEvents := []\<rparr>
      in w3\<lparr>trace := trace w3 @
               [DelegateInstalled ''click'' ''[data-action]:not([data-trigger])'',
                DelegateInstalled ''change'' (''[data-action][data-trigger='' @ dquoted ''change'' @ '']'')]\<rparr>)"

text \<open>
  \<^verbatim>\<open>actionHandler\<close>, the delegated listener: \<open>action\<close> is the \<^verbatim>\<open>data-action\<close> of the
  element \<open>el\<close> that fired.
\<close>

fun executeAction_roots ::
  "string \<Rightarrow> elem \<Rightarrow> (string \<times> component) list \<Rightarrow> effect list \<Rightarrow> effect list outcome" where
  "executeAction_roots action el [] tr = Returned tr"
| "executeAction_roots action el ((k, c) # rest) tr =
     and_then (executeAction action el c tr) (executeAction_roots action el rest)"

definition actionHandler :: "ComponentEngine \<Rightarrow> string \<Rightarrow> elem \<Rightarrow> ComponentEngine outcome" where
  "actionHandler w action el =
     (case executeAction_roots action el (components w) (trace w) of
        Returned tr \<Rightarrow> Returned (w\<lparr>trace := tr\<rparr>)
      | Threw e tr \<Rightarrow> Threw e (w\<lparr>trace := tr\<rparr>))"

definition addComponent :: "ComponentEngine \<Rightarrow> component \<Rightarrow> ComponentEngine" where
  "addComponent w c =
     (case map_of (components w) (name (attrs c)) of
        Some existing \<Rightarrow>
          w\<lparr>trace := trace w @
              [ConsoleError (''Component with name '' @ dquoted (name (attrs c)) @ '' already exists.'')]\<rparr>
      | None \<Rightarrow>
          if initialized w then
            (let tr1 = trace w @ [GuardCalled (oid (attrs c))] in
             if guard (attrs c) then
               (let (c', tr2) = initComponent c (name (attrs c)) tr1
                in w\<lparr>components := put (name (attrs c)) c' (components w), trace := tr2\<rparr>)
             else w\<lparr>components := put (name (attrs c)) c (components w), trace := tr1\<rparr>)
          else w\<lparr>components := put (name (attrs c)) c (components w)\<rparr>)"

definition enableComponent :: "ComponentEngine \<Rightarrow> comp_arg \<Rightarrow> ComponentEngine outcome" where
  "enableComponent w arg =
     (case getComponent w arg of
        None \<Rightarrow> Threw TypeError w
      | Some c \<Rightarrow>
          if \<not> enabled (attrs c) then
            (let (c', tr) = initComponent c (name (attrs c)) (trace w)
             in Returned (w\<lparr>components := modify (key_of arg) (\<lambda>_. c') (components w), trace := tr\<rparr>))
          else Returned w)"

text \<open>
  The inner loop of \<^verbatim>\<open>disableComponent\<close> from index \<open>i\<close>:
  \<^verbatim>\<open>for (; i < listeners.length; i++) if (listeners[i].component === component) listeners.splice(i, 1)\<close>.
\<close>

function purge_listeners :: "(fn \<times> oid) list \<Rightarrow> oid \<Rightarrow> fn list \<Rightarrow> nat \<Rightarrow> fn list" where
  "purge_listeners own c ls i =
     (if i < length ls then
        (if map_of own (ls ! i) = Some c then purge_listeners own c (splice1 (int i) ls) (Suc i)
         else purge_listeners own c ls (Suc i))
      else ls)"
  by pat_completeness auto
termination
  by (relation "measure (\<lambda>(own, c, ls, i). length ls - i)") (auto simp: splice1_def)

declare purge_listeners.simps [simp del]

definition disableComponent :: "ComponentEngine \<Rightarrow> comp_arg \<Rightarrow> ComponentEngine outcome" where
  "disableComponent w arg =
     (case getComponent w arg of
        None \<Rightarrow> Threw TypeError w
      | Some c \<Rightarrow>
          if enabled (attrs c) then
            Returned (w\<lparr>trace := trace w @ call_remove c,
                        components := modify (key_of arg) (upd (\<lambda>f. f\<lparr>enabled := False\<rparr>)) (components w),
                        eventListeners :=
                          map (\<lambda>(ev, ls). (ev, purge_listeners (owner w) (oid (attrs c)) ls 0))
                            (eventListeners w)\<rparr>)
          else Returned w)"

text \<open>
  \<^verbatim>\<open>removeComponent\<close>. Its last statement is \<^verbatim>\<open>delete this.components[component]\<close>,
  where \<^verbatim>\<open>component\<close> is the object: the key is the object converted to a string, which
  for a \<^verbatim>\<open>Component\<close> is \<^verbatim>\<open>[object Object]\<close>.
\<close>

definition removeComponent :: "ComponentEngine \<Rightarrow> comp_arg \<Rightarrow> ComponentEngine outcome" where
  "removeComponent w arg =
     (case getComponent w arg of
        None \<Rightarrow> Threw TypeError w
      | Some c \<Rightarrow>
          and_then (disableComponent w (ByObject c))
            (\<lambda>w1. Returned
               (w1\<lparr>components :=
                     delete_key ''[object Object]''
                       (modify (key_of arg) (upd (\<lambda>f. f\<lparr>engine := False\<rparr>)) (components w1))\<rparr>)))"

subsection \<open>The Application variant\<close>

text \<open>
  The second half of the source: \<^verbatim>\<open>Application\<close> and its own \<^verbatim>\<open>Component\<close>
  constructor. The event mixin is not part of the activation path and is left out.
\<close>

record AppComponent =
  ac_name :: string
  ac_oid :: oid
  ac_selector :: "string option"
  ac_guard :: bool
  ac_init :: "fn option"
  ac_state :: "(string \<times> jsval) list"
  ac_element :: "elem list option"
  ac_engine :: bool
  ac_parent :: bool

record Application =
  app_components :: "AppComponent list"
  uninitComponents :: "AppComponent list"
  inactiveComponents :: "AppComponent list"
  app_initialized :: bool
  app_trace :: "effect list"

definition new_Application :: Application where
  "new_Application =
     \<lparr>app_components = [], uninitComponents = [], inactiveComponents = [],
      app_initialized = False, app_trace = []\<rparr>"

definition new_AppComponent :: "string \<Rightarrow> oid \<Rightarrow> string option \<Rightarrow> bool \<Rightarrow> fn option \<Rightarrow> AppComponent" where
  "new_AppComponent n i sel g ini =
     \<lparr>ac_name = n, ac_oid = i, ac_selector = sel, ac_guard = g, ac_init = ini, ac_state = [],
      ac_element = None, ac_engine = False, ac_parent = False\<rparr>"

text \<open>\<^verbatim>\<open>_prepare\<close>: \<open>Inl\<close> is the string it throws.\<close>

definition Component_prepare :: "(string \<Rightarrow> elem list) \<Rightarrow> AppComponent \<Rightarrow> string + AppComponent" where
  "Component_prepare page c =
     (if \<not> truthy (ac_selector c) then
        Inl (''A selector is not provided for the '' @ ac_name c @ '' component.'')
      else Inr (c\<lparr>ac_element := Some (query page (ac_selector c)), ac_engine := True, ac_parent := True\<rparr>))"

definition Component_reset :: "AppComponent \<Rightarrow> AppComponent" where
  "Component_reset c = c\<lparr>ac_state := [], ac_engine := False, ac_parent := False, ac_element := None\<rparr>"

text \<open>
  \<^verbatim>\<open>_shouldInitialize\<close>: \<^verbatim>\<open>this.guard() && this.element.length\<close>, read as a condition.
  It is called after \<^verbatim>\<open>_prepare\<close> only, when \<^verbatim>\<open>element\<close> is set.
\<close>

definition Component_shouldInitialize :: "AppComponent \<Rightarrow> bool" where
  "Component_shouldInitialize c =
     (ac_guard c \<and> (case ac_element c of None \<Rightarrow> False | Some els \<Rightarrow> length els > 0))"

definition app_call_init :: "AppComponent \<Rightarrow> effect list" where
  "app_call_init c = InitCalled (ac_oid c) # (case ac_init c of
       Some f \<Rightarrow> []
     | None \<Rightarrow> [ConsoleWarn (''An init method is not provided for the '' @ ac_name c @ '' component.'')])"

text \<open>
  The loop of \<^verbatim>\<open>Application.prototype.init\<close> from index \<open>i\<close>. The array it walks is
  \<^verbatim>\<open>this.uninitComponents\<close>, whose objects \<^verbatim>\<open>_prepare\<close> and \<^verbatim>\<open>_reset\<close> change in
  place. A throw of \<^verbatim>\<open>_prepare\<close> leaves the loop and the function.
\<close>

function Application_init_loop ::
  "(string \<Rightarrow> elem list) \<Rightarrow> Application \<Rightarrow> nat \<Rightarrow> Application outcome" where
  "Application_init_loop page a i =
     (if i < length (uninitComponents a) then
        (case Component_prepare page (uninitComponents a ! i) of
           Inl msg \<Rightarrow> Threw (Thrown msg) a
         | Inr c1 \<Rightarrow>
             let tr1 = app_trace a @ [GuardCalled (ac_oid c1)] in
             if Component_shouldInitialize c1 then
               Application_init_loop page
                 (a\<lparr>uninitComponents := (uninitComponents a)[i := c1],
                    app_components := app_components a @ [c1],
                    app_trace := tr1 @ app_call_init c1 @
                      [ConsoleLog (''Component '' @ ac_name c1 @ '' initialized.'')]\<rparr>)
                 (Suc i)
             else
               (let c2 = Component_reset c1 in
                Application_init_loop page
                  (a\<lparr>uninitComponents := (uninitComponents a)[i := c2],
                     inactiveComponents := inactiveComponents a @ [c2],
                     app_trace := tr1\<rparr>)
                  (Suc i)))
      else Returned (a\<lparr>uninitComponents := []\<rparr>))"
  by pat_completeness auto
termination
  by (relation "measure (\<lambda>(page, a, i). length (uninitComponents a) - i)") auto

declare Application_init_loop.simps [simp del]

definition Application_init :: "(string \<Rightarrow> elem list) \<Rightarrow> Application \<Rightarrow> Application outcome" where
  "Application_init page a = Application_init_loop page a 0"

definition Application_addComponent ::
  "(string \<Rightarrow> elem list) \<Rightarrow> Application \<Rightarrow> AppComponent \<Rightarrow> Application outcome" where
  "Application_addComponent page a c =
     (if app_initialized a then
        (case Component_prepare page c of
           Inl msg \<Rightarrow> Threw (Thrown msg) a
         | Inr c1 \<Rightarrow>
             let tr1 = app_trace a @ [GuardCalled (ac_oid c1)] in
             if Component_shouldInitialize c1 then
               Returned (a\<lparr>app_components := app_components a @ [c1],
                           app_trace := tr1 @ app_call_init c1\<rparr>)
             else Returned (a\<lparr>app_trace := tr1\<rparr>))
      else Returned (a\<lparr>uninitComponents := uninitComponents a @ [c]\<rparr>))"

subsection \<open>Observations\<close>

text \<open>The listeners that a dispatch of \<open>ev\<close> would call: the array under \<open>ev\<close>, if any.\<close>

definition listeners_for :: "ComponentEngine \<Rightarrow> string \<Rightarrow> fn list" where
  "listeners_for w ev = (case map_of (eventListeners w) ev of None \<Rightarrow> [] | Some ls \<Rightarrow> ls)"

text \<open>
  What \<^verbatim>\<open>_prepare\<close> makes of a component when it does not throw, whether the
  component then is initialized, and what one round of the loop of
  \<^verbatim>\<open>Application.prototype.init\<close> adds to the trace.
\<close>

definition prepared :: "(string \<Rightarrow> elem list) \<Rightarrow> AppComponent \<Rightarrow> AppComponent" where
  "prepared page c =
     c\<lparr>ac_element := Some (query page (ac_selector c)), ac_engine := True, ac_parent := True\<rparr>"

definition becomes_active :: "(string \<Rightarrow> elem list) \<Rightarrow> AppComponent \<Rightarrow> bool" where
  "becomes_active page c = (ac_guard c \<and> query page (ac_selector c) \<noteq> [])"

definition round_effects :: "(string \<Rightarrow> elem list) \<Rightarrow> AppComponent \<Rightarrow> effect list" where
  "round_effects page c =
     GuardCalled (ac_oid c) #
       (if becomes_active page c
        then app_call_init (prepared page c) @ [ConsoleLog (''Component '' @ ac_name c @ '' initialized.'')]
        else [])"

definition selector_missing :: "AppComponent \<Rightarrow> error" where
  "selector_missing c = Thrown (''A selector is not provided for the '' @ ac_name c @ '' component.'')"

text \<open>
  The listener calls on a trace, and the calls that delivering one event makes: one per
  listener of the event, in the order of the array.
\<close>

definition is_listener_call :: "effect \<Rightarrow> bool" where
  "is_listener_call e = (case e of ListenerCalled f d \<Rightarrow> True | _ \<Rightarrow> False)"

definition listener_calls :: "effect list \<Rightarrow> effect list" where
  "listener_calls tr = filter is_listener_call tr"

definition deliveries :: "(string \<times> fn list) list \<Rightarrow> string \<times> jsval \<Rightarrow> effect list" where
  "deliveries ls e =
     (case map_of ls (fst e) of None \<Rightarrow> [] | Some fs \<Rightarrow> map (\<lambda>f. ListenerCalled f (snd e)) fs)"

text \<open>
  An engine with two components \<open>C\<close> and \<open>D\<close>, initialized, where \<open>C\<close> has
  registered the listeners 51 and 52 for the event \<open>evt\<close>, one after the other, and
  \<open>D\<close> the listener 61 after them.
\<close>

definition two_adjacent_listeners :: "ComponentEngine outcome" where
  "two_adjacent_listeners =
     (let C = new_Component ''C'' 1 None True None None [];
          D = new_Component ''D'' 2 None True None None [];
          w = init (\<lambda>s. []) (addComponent (addComponent new_ComponentEngine C) D);
          C' = fst (initComponent C ''C'' []);
          D' = fst (initComponent D ''D'' [])
      in and_then (Component_addEventListener w C' ''evt'' 51)
           (\<lambda>w1. and_then (Component_addEventListener w1 C' ''evt'' 52)
              (\<lambda>w2. Component_addEventListener w2 D' ''evt'' 61)))"

text \<open>
  The guard and init calls on a trace, and the calls that activating a component is
  expected to make: its own init, then for each subcomponent in the order of declaration
  the guard and, when the guard passes, the activation of that subcomponent.
\<close>

definition is_lifecycle_call :: "effect \<Rightarrow> bool" where
  "is_lifecycle_call e = (case e of GuardCalled i \<Rightarrow> True | InitCalled i \<Rightarrow> True | _ \<Rightarrow> False)"

definition lifecycle_calls :: "effect list \<Rightarrow> effect list" where
  "lifecycle_calls tr = filter is_lifecycle_call tr"

fun activation_order :: "component \<Rightarrow> effect list"
  and activation_order_subs :: "component list \<Rightarrow> effect list" where
  "activation_order (Component f subs) = InitCalled (oid f) # activation_order_subs subs"
| "activation_order_subs [] = []"
| "activation_order_subs (Component g gsubs # ss) =
     GuardCalled (oid g) # (if guard g then activation_order (Component g gsubs) else [])
       @ activation_order_subs ss"

text \<open>
  The invariant on the stored elements as the specification words it, for one component
  and the page its selector was resolved against: the elements are set if and only if the
  component is enabled and either has no selector or has one that matched.
\<close>

definition spec_bound_invariant :: "(string \<Rightarrow> elem list) \<Rightarrow> component \<Rightarrow> bool" where
  "spec_bound_invariant page c =
     ((elements (attrs c) \<noteq> None) =
      (enabled (attrs c) \<and>
       (\<not> truthy (selector (attrs c)) \<or> query page (selector (attrs c)) \<noteq> [])))"

text \<open>
  The part of it that the engine keeps, on a component with its subcomponents and on all
  registered components: stored elements are a non-empty match of a declared selector.
\<close>

fun elements_matched :: "component \<Rightarrow> bool"
  and elements_matched_all :: "component list \<Rightarrow> bool" where
  "elements_matched (Component f subs) =
     ((case elements f of None \<Rightarrow> True | Some els \<Rightarrow> truthy (selector f) \<and> els \<noteq> [])
      \<and> elements_matched_all subs)"
| "elements_matched_all [] = True"
| "elements_matched_all (s # ss) = (elements_matched s \<and> elements_matched_all ss)"

definition engine_elements_matched :: "ComponentEngine \<Rightarrow> bool" where
  "engine_elements_matched w = list_all (\<lambda>kc. elements_matched (snd kc)) (components w)"

section \<open>Properties\<close>

subsection \<open>Dictionaries and arrays\<close>

lemma map_of_put: "map_of (put k v m) k' = (if k' = k then Some v else map_of m k')"
  by (induction m) auto

lemma put_same: "map_of m k = Some v \<Longrightarrow> put k v m = m"
  by (induction m) (auto split: if_splits)

lemma put_eq_iff: "map_of m k = Some v \<Longrightarrow> put k v' m = m \<longleftrightarrow> v' = v"
  by (induction m) (auto split: if_splits)

lemma indexOf_absent: "x \<notin> set xs \<Longrightarrow> indexOf x xs = -1"
  by (induction xs) auto

lemma splice1_minus_one: "splice1 (-1) xs = butlast xs"
proof (cases xs rule: rev_cases)
  case Nil
  then show ?thesis by (simp add: splice1_def)
next
  case (snoc ys y)
  then show ?thesis by (simp add: splice1_def Let_def)
qed

lemma butlast_eq_self: "butlast xs = xs \<longleftrightarrow> xs = []"
  by (cases xs rule: rev_cases) auto

subsection \<open>Registering a name twice\<close>

text \<open>
  C8. Registering a component under a name that the engine already holds is rejected: the
  call reports the collision on the console and changes nothing else, so the mapping is
  the same and \<^verbatim>\<open>getComponent\<close> still gives the first component.
\<close>

theorem addComponent_duplicate_rejected:
  assumes "getComponent w (ByName (name (attrs c))) = Some c0"
  shows "addComponent w c =
           w\<lparr>trace := trace w @
               [ConsoleError (''Component with name '' @ dquoted (name (attrs c)) @ '' already exists.'')]\<rparr>
         \<and> components (addComponent w c) = components w
         \<and> getComponent (addComponent w c) (ByName (name (attrs c))) = Some c0"
  using assms by (simp add: addComponent_def getComponent_def)

theorem addComponent_duplicate_rejected_witness:
  "getComponent (addComponent new_ComponentEngine (new_Component ''Foo'' 1 None True None None []))
       (ByName ''Foo'') = Some (new_Component ''Foo'' 1 None True None None [])
   \<and> getComponent
        (addComponent (addComponent new_ComponentEngine (new_Component ''Foo'' 1 None True None None []))
           (new_Component ''Foo'' 2 (Some ''.x'') True None None []))
        (ByName ''Foo'') = Some (new_Component ''Foo'' 1 None True None None [])"
proof -
  let ?first = "new_Component ''Foo'' 1 None True None None []"
  let ?second = "new_Component ''Foo'' 2 (Some ''.x'') True None None []"
  let ?w = "addComponent new_ComponentEngine ?first"
  have n: "name (attrs ?second) = ''Foo''" by (simp add: new_Component_def)
  have h: "getComponent ?w (ByName (name (attrs ?second))) = Some ?first"
    by (simp add: n addComponent_def getComponent_def new_ComponentEngine_def new_Component_def)
  have "getComponent (addComponent ?w ?second) (ByName (name (attrs ?second))) = Some ?first"
    using addComponent_duplicate_rejected [OF h] by (elim conjE)
  with h show ?thesis unfolding n by (intro conjI)
qed

subsection \<open>Removing a listener that is not registered\<close>

text \<open>
  C10, as amended. When \<open>f\<close> is not among the listeners of \<open>E\<close>,
  \<^verbatim>\<open>removeEventListener(E, f)\<close> drops the last listener of \<open>E\<close> and touches no other
  event; it leaves the state as it was exactly when \<open>E\<close> has no listener to drop, which
  is when \<open>E\<close> has no array or an empty one.
\<close>

theorem removeEventListener_absent_listener:
  assumes "f \<notin> set (listeners_for w E)"
  shows "listeners_for (removeEventListener w E f) E = butlast (listeners_for w E)
         \<and> (removeEventListener w E f = w \<longleftrightarrow> listeners_for w E = [])
         \<and> (\<forall>E'. E' \<noteq> E \<longrightarrow> listeners_for (removeEventListener w E f) E' = listeners_for w E')"
proof (cases "map_of (eventListeners w) E")
  case None
  then show ?thesis by (simp add: removeEventListener_def listeners_for_def)
next
  case (Some ls)
  with assms have nin: "f \<notin> set ls" by (simp add: listeners_for_def)
  have r: "removeEventListener w E f = w\<lparr>eventListeners := put E (butlast ls) (eventListeners w)\<rparr>"
    using Some nin by (simp add: removeEventListener_def indexOf_absent splice1_minus_one)
  have "(w\<lparr>eventListeners := put E (butlast ls) (eventListeners w)\<rparr> = w)
          \<longleftrightarrow> put E (butlast ls) (eventListeners w) = eventListeners w"
    by (metis ComponentEngine.select_convs(2) ComponentEngine.surjective ComponentEngine.update_convs(2))
  also have "\<dots> \<longleftrightarrow> butlast ls = ls" using Some by (rule put_eq_iff)
  also have "\<dots> \<longleftrightarrow> ls = []" by (rule butlast_eq_self)
  finally have u: "removeEventListener w E f = w \<longleftrightarrow> ls = []" using r by simp
  show ?thesis using r u Some by (simp add: listeners_for_def map_of_put)
qed


theorem removeEventListener_absent_listener_witness:
  "3 \<notin> set (listeners_for (addEventListener (addEventListener new_ComponentEngine ''e'' 1) ''e'' 2) ''e'')
   \<and> listeners_for
        (removeEventListener (addEventListener (addEventListener new_ComponentEngine ''e'' 1) ''e'' 2) ''e'' 3)
        ''e'' = [1]
   \<and> removeEventListener (addEventListener (addEventListener new_ComponentEngine ''e'' 1) ''e'' 2) ''e'' 3
        \<noteq> addEventListener (addEventListener new_ComponentEngine ''e'' 1) ''e'' 2"
proof -
  let ?w = "addEventListener (addEventListener new_ComponentEngine ''e'' 1) ''e'' 2"
  have ls: "listeners_for ?w ''e'' = [1, 2]"
    by (simp add: listeners_for_def addEventListener_def new_ComponentEngine_def)
  then have h: "3 \<notin> set (listeners_for ?w ''e'')" by simp
  from removeEventListener_absent_listener [OF h] ls h show ?thesis by simp
qed

text \<open>
  C10, as stated, fails on an array that exists and is empty (one listener added and
  removed again): the call leaves the state unchanged although \<open>E\<close> has a listener array.
\<close>

theorem removeEventListener_empty_list_counterexample:
  "map_of (eventListeners (removeEventListener (addEventListener new_ComponentEngine ''e'' 1) ''e'' 1)) ''e''
     = Some []
   \<and> removeEventListener (removeEventListener (addEventListener new_ComponentEngine ''e'' 1) ''e'' 1) ''e'' 2
     = removeEventListener (addEventListener new_ComponentEngine ''e'' 1) ''e'' 1"
  by (simp add: removeEventListener_def addEventListener_def new_ComponentEngine_def splice1_def)

subsection \<open>The Application variant: a missing selector\<close>

lemma prepare_ok: "truthy (ac_selector c) \<Longrightarrow> Component_prepare page c = Inr (prepared page c)"
  by (simp add: Component_prepare_def prepared_def)

lemma prepare_throws:
  "\<not> truthy (ac_selector c) \<Longrightarrow> Component_prepare page c = Inl (''A selector is not provided for the '' @ ac_name c @ '' component.'')"
  by (simp add: Component_prepare_def)

lemma shouldInitialize_prepared: "Component_shouldInitialize (prepared page c) = becomes_active page c"
  by (simp add: Component_shouldInitialize_def prepared_def becomes_active_def)

lemma prepared_keeps [simp]: "ac_oid (prepared page c) = ac_oid c" "ac_name (prepared page c) = ac_name c"
  by (simp_all add: prepared_def)

lemma init_loop_returns:
  assumes "\<forall>j. i \<le> j \<and> j < length (uninitComponents a) \<longrightarrow> truthy (ac_selector (uninitComponents a ! j))"
  shows "Application_init_loop page a i =
           Returned (a\<lparr>uninitComponents := [],
                       app_components := app_components a @
                          map (prepared page) (filter (becomes_active page) (drop i (uninitComponents a))),
                       inactiveComponents := inactiveComponents a @
                          map (Component_reset \<circ> prepared page)
                            (filter (Not \<circ> becomes_active page) (drop i (uninitComponents a))),
                       app_trace := app_trace a @
                          concat (map (round_effects page) (drop i (uninitComponents a)))\<rparr>)"
  using assms
proof (induction "length (uninitComponents a) - i" arbitrary: a i)
  case 0
  then have "\<not> i < length (uninitComponents a)" by simp
  then show ?case by (subst Application_init_loop.simps) simp
next
  case (Suc n)
  then have lt: "i < length (uninitComponents a)" by simp
  let ?c = "uninitComponents a ! i"
  have tr: "truthy (ac_selector ?c)" using Suc.prems lt by simp
  have dr: "drop i (uninitComponents a) = ?c # drop (Suc i) (uninitComponents a)"
    using lt by (simp add: Cons_nth_drop_Suc)
  show ?case
  proof (cases "becomes_active page ?c")
    case True
    let ?a1 = "a\<lparr>uninitComponents := (uninitComponents a)[i := prepared page ?c],
                  app_components := app_components a @ [prepared page ?c],
                  app_trace := (app_trace a @ [GuardCalled (ac_oid (prepared page ?c))]) @ app_call_init (prepared page ?c) @
                      [ConsoleLog (''Component '' @ ac_name (prepared page ?c) @ '' initialized.'')]\<rparr>"
    have step: "Application_init_loop page a i = Application_init_loop page ?a1 (Suc i)"
      using lt True by (subst Application_init_loop.simps) (simp add: prepare_ok [OF tr] shouldInitialize_prepared Let_def)
    have m: "n = length (uninitComponents ?a1) - Suc i" using Suc.hyps(2) by simp
    have p: "\<forall>j. Suc i \<le> j \<and> j < length (uninitComponents ?a1) \<longrightarrow> truthy (ac_selector (uninitComponents ?a1 ! j))"
      using Suc.prems by simp
    show ?thesis
      unfolding step Suc.hyps(1) [OF m p]
      using True by (simp add: dr round_effects_def)
  next
    case False
    let ?a1 = "a\<lparr>uninitComponents := (uninitComponents a)[i := Component_reset (prepared page ?c)],
                  inactiveComponents := inactiveComponents a @ [Component_reset (prepared page ?c)],
                  app_trace := app_trace a @ [GuardCalled (ac_oid (prepared page ?c))]\<rparr>"
    have step: "Application_init_loop page a i = Application_init_loop page ?a1 (Suc i)"
      using lt False by (subst Application_init_loop.simps) (simp add: prepare_ok [OF tr] shouldInitialize_prepared Let_def)
    have m: "n = length (uninitComponents ?a1) - Suc i" using Suc.hyps(2) by simp
    have p: "\<forall>j. Suc i \<le> j \<and> j < length (uninitComponents ?a1) \<longrightarrow> truthy (ac_selector (uninitComponents ?a1 ! j))"
      using Suc.prems by simp
    show ?thesis
      unfolding step Suc.hyps(1) [OF m p]
      using False by (simp add: dr round_effects_def)
  qed
qed

lemma init_loop_throws:
  assumes "k < length (uninitComponents a)" "i \<le> k"
    "\<forall>j. i \<le> j \<and> j < k \<longrightarrow> truthy (ac_selector (uninitComponents a ! j))"
    "\<not> truthy (ac_selector (uninitComponents a ! k))"
  shows "\<exists>a'. Application_init_loop page a i = Threw (selector_missing (uninitComponents a ! k)) a'
            \<and> drop k (uninitComponents a') = drop k (uninitComponents a)
            \<and> app_components a' = app_components a @
                  map (prepared page) (filter (becomes_active page) (take (k - i) (drop i (uninitComponents a))))
            \<and> app_trace a' = app_trace a @
                  concat (map (round_effects page) (take (k - i) (drop i (uninitComponents a))))"
  using assms
proof (induction "k - i" arbitrary: a i)
  case 0
  then have "i = k" by simp
  then show ?case using 0
    by (subst Application_init_loop.simps) (simp add: prepare_throws selector_missing_def)
next
  case (Suc n)
  then have ik: "i < k" and lt: "i < length (uninitComponents a)" by simp_all
  let ?c = "uninitComponents a ! i"
  have tr: "truthy (ac_selector ?c)" using Suc.prems ik by simp
  have dr: "drop i (uninitComponents a) = ?c # drop (Suc i) (uninitComponents a)"
    using lt by (simp add: Cons_nth_drop_Suc)
  have tk: "k - i = Suc (k - Suc i)" using ik by simp
  show ?case
  proof (cases "becomes_active page ?c")
    case True
    let ?a1 = "a\<lparr>uninitComponents := (uninitComponents a)[i := prepared page ?c],
                  app_components := app_components a @ [prepared page ?c],
                  app_trace := (app_trace a @ [GuardCalled (ac_oid (prepared page ?c))]) @ app_call_init (prepared page ?c) @
                      [ConsoleLog (''Component '' @ ac_name (prepared page ?c) @ '' initialized.'')]\<rparr>"
    have step: "Application_init_loop page a i = Application_init_loop page ?a1 (Suc i)"
      using lt True by (subst Application_init_loop.simps) (simp add: prepare_ok [OF tr] shouldInitialize_prepared Let_def)
    have m: "n = k - Suc i" using Suc.hyps(2) by simp
    have p1: "k < length (uninitComponents ?a1)" using Suc.prems by simp
    have p2: "Suc i \<le> k" using ik by simp
    have p3: "\<forall>j. Suc i \<le> j \<and> j < k \<longrightarrow> truthy (ac_selector (uninitComponents ?a1 ! j))"
      using Suc.prems by simp
    have p4: "\<not> truthy (ac_selector (uninitComponents ?a1 ! k))" using Suc.prems ik by simp
    from Suc.hyps(1) [OF m p1 p2 p3 p4] obtain a' where
      "Application_init_loop page ?a1 (Suc i) = Threw (selector_missing (uninitComponents ?a1 ! k)) a'"
      "drop k (uninitComponents a') = drop k (uninitComponents ?a1)"
      "app_components a' = app_components ?a1 @
          map (prepared page) (filter (becomes_active page) (take (k - Suc i) (drop (Suc i) (uninitComponents ?a1))))"
      "app_trace a' = app_trace ?a1 @
          concat (map (round_effects page) (take (k - Suc i) (drop (Suc i) (uninitComponents ?a1))))"
      by blast
    then show ?thesis
      unfolding step using True ik by (simp add: dr tk round_effects_def)
  next
    case False
    let ?a1 = "a\<lparr>uninitComponents := (uninitComponents a)[i := Component_reset (prepared page ?c)],
                  inactiveComponents := inactiveComponents a @ [Component_reset (prepared page ?c)],
                  app_trace := app_trace a @ [GuardCalled (ac_oid (prepared page ?c))]\<rparr>"
    have step: "Application_init_loop page a i = Application_init_loop page ?a1 (Suc i)"
      using lt False by (subst Application_init_loop.simps) (simp add: prepare_ok [OF tr] shouldInitialize_prepared Let_def)
    have m: "n = k - Suc i" using Suc.hyps(2) by simp
    have p1: "k < length (uninitComponents ?a1)" using Suc.prems by simp
    have p2: "Suc i \<le> k" using ik by simp
    have p3: "\<forall>j. Suc i \<le> j \<and> j < k \<longrightarrow> truthy (ac_selector (uninitComponents ?a1 ! j))"
      using Suc.prems by simp
    have p4: "\<not> truthy (ac_selector (uninitComponents ?a1 ! k))" using Suc.prems ik by simp
    from Suc.hyps(1) [OF m p1 p2 p3 p4] obtain a' where
      "Application_init_loop page ?a1 (Suc i) = Threw (selector_missing (uninitComponents ?a1 ! k)) a'"
      "drop k (uninitComponents a') = drop k (uninitComponents ?a1)"
      "app_components a' = app_components ?a1 @
          map (prepared page) (filter (becomes_active page) (take (k - Suc i) (drop (Suc i) (uninitComponents ?a1))))"
      "app_trace a' = app_trace ?a1 @
          concat (map (round_effects page) (take (k - Suc i) (drop (Suc i) (uninitComponents ?a1))))"
      by blast
    then show ?thesis
      unfolding step using False ik by (simp add: dr tk round_effects_def)
  qed
qed


text \<open>
  C9. In the Application variant, preparing a component that declares no selector throws.
  In \<^verbatim>\<open>Application.prototype.init\<close> the throw ends the call at that component: the
  components before it have been processed, it and the ones after it are still queued and
  untouched. When every queued component declares a selector the call returns, and a
  component whose guard is false or whose selector matches nothing is reset and put with
  the inactive ones, with no console output. \<^verbatim>\<open>Application.prototype.addComponent\<close> on
  an initialized application throws in the first case and returns in the second.
\<close>

theorem Application_missing_selector_is_fatal:
  "(uninitComponents a = pre @ c # post \<and> list_all (\<lambda>x. truthy (ac_selector x)) pre
      \<and> \<not> truthy (ac_selector c) \<longrightarrow>
      (\<exists>a'. Application_init page a = Threw (selector_missing c) a'
            \<and> drop (length pre) (uninitComponents a') = c # post
            \<and> app_components a' = app_components a @ map (prepared page) (filter (becomes_active page) pre)
            \<and> app_trace a' = app_trace a @ concat (map (round_effects page) pre)))
   \<and> (list_all (\<lambda>x. truthy (ac_selector x)) (uninitComponents a) \<longrightarrow>
        Application_init page a =
          Returned (a\<lparr>uninitComponents := [],
                      app_components := app_components a @
                         map (prepared page) (filter (becomes_active page) (uninitComponents a)),
                      inactiveComponents := inactiveComponents a @
                         map (Component_reset \<circ> prepared page)
                           (filter (Not \<circ> becomes_active page) (uninitComponents a)),
                      app_trace := app_trace a @ concat (map (round_effects page) (uninitComponents a))\<rparr>))
   \<and> (app_initialized a \<and> \<not> truthy (ac_selector d) \<longrightarrow>
        Application_addComponent page a d = Threw (selector_missing d) a)
   \<and> (app_initialized a \<and> truthy (ac_selector d) \<and> \<not> becomes_active page d \<longrightarrow>
        Application_addComponent page a d = Returned (a\<lparr>app_trace := app_trace a @ [GuardCalled (ac_oid d)]\<rparr>))"
proof (intro conjI impI)
  assume h: "uninitComponents a = pre @ c # post \<and> list_all (\<lambda>x. truthy (ac_selector x)) pre
      \<and> \<not> truthy (ac_selector c)"
  let ?k = "length pre"
  have k: "?k < length (uninitComponents a)" using h by simp
  have at: "uninitComponents a ! ?k = c" using h by simp
  have before: "\<forall>j. 0 \<le> j \<and> j < ?k \<longrightarrow> truthy (ac_selector (uninitComponents a ! j))"
    using h by (simp add: list_all_length nth_append)
  have miss: "\<not> truthy (ac_selector (uninitComponents a ! ?k))" using h at by simp
  from init_loop_throws [OF k _ before miss, of page]
  show "\<exists>a'. Application_init page a = Threw (selector_missing c) a'
            \<and> drop (length pre) (uninitComponents a') = c # post
            \<and> app_components a' = app_components a @ map (prepared page) (filter (becomes_active page) pre)
            \<and> app_trace a' = app_trace a @ concat (map (round_effects page) pre)"
    using h by (simp add: Application_init_def at)
next
  assume "list_all (\<lambda>x. truthy (ac_selector x)) (uninitComponents a)"
  then have "\<forall>j. 0 \<le> j \<and> j < length (uninitComponents a) \<longrightarrow> truthy (ac_selector (uninitComponents a ! j))"
    by (simp add: list_all_length)
  from init_loop_returns [OF this, of page]
  show "Application_init page a =
          Returned (a\<lparr>uninitComponents := [],
                      app_components := app_components a @
                         map (prepared page) (filter (becomes_active page) (uninitComponents a)),
                      inactiveComponents := inactiveComponents a @
                         map (Component_reset \<circ> prepared page)
                           (filter (Not \<circ> becomes_active page) (uninitComponents a)),
                      app_trace := app_trace a @ concat (map (round_effects page) (uninitComponents a))\<rparr>)"
    by (simp add: Application_init_def)
next
  assume "app_initialized a \<and> \<not> truthy (ac_selector d)"
  then show "Application_addComponent page a d = Threw (selector_missing d) a"
    by (simp add: Application_addComponent_def prepare_throws selector_missing_def)
next
  assume "app_initialized a \<and> truthy (ac_selector d) \<and> \<not> becomes_active page d"
  then show "Application_addComponent page a d = Returned (a\<lparr>app_trace := app_trace a @ [GuardCalled (ac_oid d)]\<rparr>)"
    by (simp add: Application_addComponent_def prepare_ok shouldInitialize_prepared Let_def)
qed

theorem Application_missing_selector_is_fatal_witness:
  "thrown (Application_init (\<lambda>s. if s = ''.x'' then [1] else [])
             (new_Application\<lparr>uninitComponents :=
                [new_AppComponent ''P'' 1 (Some ''.x'') True None,
                 new_AppComponent ''Q'' 2 None True None,
                 new_AppComponent ''R'' 3 (Some ''.x'') True None]\<rparr>))
     = Some (Thrown ''A selector is not provided for the Q component.'')
   \<and> map ac_name (app_components (state_of (Application_init (\<lambda>s. if s = ''.x'' then [1] else [])
             (new_Application\<lparr>uninitComponents :=
                [new_AppComponent ''P'' 1 (Some ''.x'') True None,
                 new_AppComponent ''Q'' 2 None True None,
                 new_AppComponent ''R'' 3 (Some ''.x'') True None]\<rparr>)))) = [''P'']
   \<and> thrown (Application_init (\<lambda>s. if s = ''.x'' then [1] else [])
             (new_Application\<lparr>uninitComponents :=
                [new_AppComponent ''P'' 1 (Some ''.x'') True None,
                 new_AppComponent ''Q'' 2 (Some ''.nope'') True None,
                 new_AppComponent ''R'' 3 (Some ''.x'') False None]\<rparr>)) = None
   \<and> map ac_name (inactiveComponents (state_of (Application_init (\<lambda>s. if s = ''.x'' then [1] else [])
             (new_Application\<lparr>uninitComponents :=
                [new_AppComponent ''P'' 1 (Some ''.x'') True None,
                 new_AppComponent ''Q'' 2 (Some ''.nope'') True None,
                 new_AppComponent ''R'' 3 (Some ''.x'') False None]\<rparr>)))) = [''Q'', ''R'']
   \<and> thrown (Application_addComponent (\<lambda>s. if s = ''.x'' then [1] else [])
              (new_Application\<lparr>app_initialized := True\<rparr>) (new_AppComponent ''Q'' 2 None True None))
     = Some (Thrown ''A selector is not provided for the Q component.'')
   \<and> thrown (Application_addComponent (\<lambda>s. if s = ''.x'' then [1] else [])
              (new_Application\<lparr>app_initialized := True\<rparr>) (new_AppComponent ''Q'' 2 (Some ''.nope'') True None))
     = None"
proof -
  let ?page = "\<lambda>s. if s = ''.x'' then [1::nat] else []"
  let ?P = "new_AppComponent ''P'' 1 (Some ''.x'') True None"
  let ?Q = "new_AppComponent ''Q'' 2 None True None"
  let ?Q' = "new_AppComponent ''Q'' 2 (Some ''.nope'') True None"
  let ?R = "new_AppComponent ''R'' 3 (Some ''.x'') True None"
  let ?R' = "new_AppComponent ''R'' 3 (Some ''.x'') False None"
  let ?a = "new_Application\<lparr>uninitComponents := [?P, ?Q, ?R]\<rparr>"
  let ?b = "new_Application\<lparr>uninitComponents := [?P, ?Q', ?R']\<rparr>"
  let ?i = "new_Application\<lparr>app_initialized := True\<rparr>"
  have h1: "uninitComponents ?a = [?P] @ ?Q # [?R] \<and> list_all (\<lambda>x. truthy (ac_selector x)) [?P]
      \<and> \<not> truthy (ac_selector ?Q)"
    by (simp add: new_AppComponent_def)
  have h2: "list_all (\<lambda>x. truthy (ac_selector x)) (uninitComponents ?b)"
    by (simp add: new_AppComponent_def)
  have h3: "app_initialized ?i \<and> \<not> truthy (ac_selector ?Q)"
    by (simp add: new_AppComponent_def)
  have h4: "app_initialized ?i \<and> truthy (ac_selector ?Q') \<and> \<not> becomes_active ?page ?Q'"
    by (simp add: new_AppComponent_def becomes_active_def query_def)
  note T1 = Application_missing_selector_is_fatal [of ?a "[?P]" ?Q "[?R]" ?page]
  note T2 = Application_missing_selector_is_fatal [of ?b _ _ _ ?page]
  note T3 = Application_missing_selector_is_fatal [of ?i _ _ _ ?page ?Q]
  note T4 = Application_missing_selector_is_fatal [of ?i _ _ _ ?page ?Q']
  from T1 h1 obtain a' where a': "Application_init ?page ?a = Threw (selector_missing ?Q) a'"
    "app_components a' = app_components ?a @ map (prepared ?page) (filter (becomes_active ?page) [?P])"
    by blast
  have c1: "thrown (Application_init ?page ?a) = Some (Thrown ''A selector is not provided for the Q component.'')"
    using a'(1) by (simp add: selector_missing_def new_AppComponent_def)
  have c2: "map ac_name (app_components (state_of (Application_init ?page ?a))) = [''P'']"
    using a' by (simp add: becomes_active_def new_AppComponent_def new_Application_def query_def)
  from T2 h2 have b': "Application_init ?page ?b =
          Returned (?b\<lparr>uninitComponents := [],
                      app_components := app_components ?b @
                         map (prepared ?page) (filter (becomes_active ?page) (uninitComponents ?b)),
                      inactiveComponents := inactiveComponents ?b @
                         map (Component_reset \<circ> prepared ?page)
                           (filter (Not \<circ> becomes_active ?page) (uninitComponents ?b)),
                      app_trace := app_trace ?b @ concat (map (round_effects ?page) (uninitComponents ?b))\<rparr>)"
    by blast
  have c3: "thrown (Application_init ?page ?b) = None" unfolding b' by simp
  have c4: "map ac_name (inactiveComponents (state_of (Application_init ?page ?b))) = [''Q'', ''R'']"
    unfolding b'
    by (simp add: becomes_active_def new_AppComponent_def new_Application_def query_def
        Component_reset_def prepared_def)
  from T3 h3 have "Application_addComponent ?page ?i ?Q = Threw (selector_missing ?Q) ?i" by blast
  then have c5: "thrown (Application_addComponent ?page ?i ?Q) = Some (Thrown ''A selector is not provided for the Q component.'')"
    by (simp add: selector_missing_def new_AppComponent_def)
  from T4 h4 have "Application_addComponent ?page ?i ?Q' = Returned (?i\<lparr>app_trace := app_trace ?i @ [GuardCalled (ac_oid ?Q')]\<rparr>)"
    by blast
  then have c6: "thrown (Application_addComponent ?page ?i ?Q') = None" by simp
  from c1 c2 c3 c4 c5 c6 show ?thesis by (intro conjI)
qed

subsection \<open>Deferred events\<close>

lemma listener_calls_append [simp]: "listener_calls (xs @ ys) = listener_calls xs @ listener_calls ys"
  by (simp add: listener_calls_def)

lemma is_listener_call_simps [simp]:
  "is_listener_call (ListenerCalled f d)"
  "\<not> is_listener_call (GuardCalled i)"
  "\<not> is_listener_call (InitCalled i)"
  "\<not> is_listener_call (RemoveCalled i)"
  "\<not> is_listener_call (ActionCalled f el i)"
  "\<not> is_listener_call (ConsoleLog s)"
  "\<not> is_listener_call (ConsoleWarn s)"
  "\<not> is_listener_call (ConsoleError s)"
  "\<not> is_listener_call (DelegateInstalled a b)"
  by (simp_all add: is_listener_call_def)

lemma listener_calls_simps [simp]:
  "listener_calls [] = []"
  "listener_calls (e # tr) = (if is_listener_call e then e # listener_calls tr else listener_calls tr)"
  by (simp_all add: listener_calls_def)

lemma listener_calls_call_init [simp]: "listener_calls (call_init c) = []"
  by (simp add: call_init_def split: option.splits)

lemma listener_calls_deliveries [simp]: "listener_calls (deliveries ls e) = deliveries ls e"
  by (simp add: listener_calls_def deliveries_def is_listener_call_def split: option.splits)

lemma initComponent_no_listener_call:
  "listener_calls (snd (initComponent c scopeStr tr)) = listener_calls tr"
  "listener_calls (snd (initSubcomponents p scopeStr cs tr)) = listener_calls tr"
proof (induction c scopeStr tr and p scopeStr cs tr rule: initComponent_initSubcomponents.induct)
  case (1 f subs scopeStr tr)
  then show ?case by (simp add: Let_def case_prod_beta)
next
  case (2 p scopeStr tr)
  then show ?case by simp
next
  case (3 p scopeStr g gsubs ss tr)
  then show ?case by (simp add: Let_def case_prod_beta)
qed

lemma init_components_no_listener_call:
  "listener_calls (snd (init_components page cs tr)) = listener_calls tr"
proof (induction cs arbitrary: tr)
  case Nil
  then show ?case by simp
next
  case (Cons kc cs)
  obtain k c where kc: "kc = (k, c)" by (cases kc)
  show ?case
    unfolding kc
    by (simp add: Let_def case_prod_beta Cons.IH initComponent_no_listener_call(1))
qed

lemma dispatchEvent_initialized:
  "initialized w \<Longrightarrow> dispatchEvent w ev d = w\<lparr>trace := trace w @ deliveries (eventListeners w) (ev, d)\<rparr>"
  by (simp add: dispatchEvent_def deliveries_def split: option.splits)

lemma drain_deferred:
  "initialized w \<Longrightarrow>
     fold (\<lambda>(ev, d) w'. dispatchEvent w' ev d) evs w =
       w\<lparr>trace := trace w @ concat (map (deliveries (eventListeners w)) evs)\<rparr>"
proof (induction evs arbitrary: w)
  case Nil
  then show ?case by simp
next
  case (Cons e evs)
  obtain ev d where e: "e = (ev, d)" by (cases e)
  let ?w1 = "w\<lparr>trace := trace w @ deliveries (eventListeners w) (ev, d)\<rparr>"
  have i1: "initialized ?w1" using Cons.prems by simp
  show ?case
    unfolding e using Cons.prems Cons.IH [OF i1]
    by (simp add: dispatchEvent_initialized)
qed

lemma init_unfold:
  "init page w =
     w\<lparr>components := fst (init_components page (components w) (trace w)),
       initialized := True,
       deferredEvents := [],
       trace := snd (init_components page (components w) (trace w)) @
                concat (map (deliveries (eventListeners w)) (deferredEvents w)) @
                [DelegateInstalled ''click'' ''[data-action]:not([data-trigger])'',
                 DelegateInstalled ''change'' (''[data-action][data-trigger='' @ dquoted ''change'' @ '']'')]\<rparr>"
  by (simp add: init_def Let_def case_prod_beta drain_deferred)

text \<open>
  C5. An event dispatched while \<open>initialized\<close> is false is appended to
  \<open>deferredEvents\<close> and is not delivered. \<^verbatim>\<open>init\<close> sets \<open>initialized\<close>, then
  delivers the queued events in the order they were queued, each to the listeners of its
  name in the order of registration, after the components have been activated and before
  the action handlers are installed, and leaves the queue empty; a second \<^verbatim>\<open>init\<close>
  delivers nothing again. In particular an event dispatched before \<^verbatim>\<open>init\<close>, with no
  event of that name queued before, reaches a listener registered afterwards exactly once,
  with its data, when \<^verbatim>\<open>init\<close> runs.
\<close>

theorem deferred_events_drained_in_order:
  assumes "\<not> initialized w"
  shows "dispatchEvent w ev d = w\<lparr>deferredEvents := deferredEvents w @ [(ev, d)]\<rparr>
       \<and> initialized (init page w)
       \<and> deferredEvents (init page w) = []
       \<and> trace (init page w) =
           snd (init_components page (components w) (trace w)) @
           concat (map (deliveries (eventListeners w)) (deferredEvents w)) @
           [DelegateInstalled ''click'' ''[data-action]:not([data-trigger])'',
            DelegateInstalled ''change'' (''[data-action][data-trigger='' @ dquoted ''change'' @ '']'')]
       \<and> listener_calls (trace (init page w)) =
           listener_calls (trace w) @ concat (map (deliveries (eventListeners w)) (deferredEvents w))
       \<and> listener_calls (trace (init page (init page w))) = listener_calls (trace (init page w))
       \<and> (ev \<notin> fst ` set (deferredEvents w) \<longrightarrow>
            listener_calls (trace (init page (addEventListener (dispatchEvent w ev d) ev f))) =
              listener_calls (trace w) @ concat (map (deliveries (eventListeners w)) (deferredEvents w)) @
              map (\<lambda>g. ListenerCalled g d) (listeners_for w ev @ [f]))"
proof -
  have lc: "listener_calls (concat (map (deliveries ls) evs)) = concat (map (deliveries ls) evs)" for ls evs
    by (induction evs) simp_all
  have a: "dispatchEvent w ev d = w\<lparr>deferredEvents := deferredEvents w @ [(ev, d)]\<rparr>"
    using assms by (simp add: dispatchEvent_def)
  have b: "listener_calls (trace (init page w')) =
           listener_calls (trace w') @ concat (map (deliveries (eventListeners w')) (deferredEvents w'))" for w'
    by (simp add: init_unfold init_components_no_listener_call lc)
  have c: "listener_calls (trace (init page (init page w))) = listener_calls (trace (init page w))"
    unfolding b [of "init page w"] by (simp add: init_unfold)
  let ?w2 = "addEventListener (dispatchEvent w ev d) ev f"
  have other: "deliveries (eventListeners ?w2) e = deliveries (eventListeners w) e" if "fst e \<noteq> ev" for e
    using that by (simp add: a addEventListener_def deliveries_def map_of_put)
  have same: "deliveries (eventListeners ?w2) (ev, d) = map (\<lambda>g. ListenerCalled g d) (listeners_for w ev @ [f])"
    by (simp add: a addEventListener_def deliveries_def map_of_put listeners_for_def split: option.splits)
  have d: "listener_calls (trace (init page ?w2)) =
           listener_calls (trace w) @ concat (map (deliveries (eventListeners w)) (deferredEvents w)) @
           map (\<lambda>g. ListenerCalled g d) (listeners_for w ev @ [f])"
    if "ev \<notin> fst ` set (deferredEvents w)"
  proof -
    have m0: "map (deliveries (eventListeners ?w2)) (deferredEvents w) = map (deliveries (eventListeners w)) (deferredEvents w)"
    proof (intro map_cong refl)
      fix e assume "e \<in> set (deferredEvents w)"
      with that have "fst e \<noteq> ev" by force
      then show "deliveries (eventListeners ?w2) e = deliveries (eventListeners w) e" by (rule other)
    qed
    have m: "concat (map (deliveries (eventListeners ?w2)) (deferredEvents w)) =
             concat (map (deliveries (eventListeners w)) (deferredEvents w))"
      by (simp only: m0)
    have q: "deferredEvents ?w2 = deferredEvents w @ [(ev, d)]" "trace ?w2 = trace w"
      by (simp_all add: a addEventListener_def)
    show ?thesis
      unfolding b [of ?w2] by (simp add: q m same)
  qed
  show ?thesis using a b [of w] c d by (simp add: init_unfold)
qed


theorem deferred_events_drained_in_order_witness:
  "\<not> initialized new_ComponentEngine
   \<and> dispatchEvent new_ComponentEngine ''ready'' (JObj [(''x'', JNum 1)]) =
       new_ComponentEngine\<lparr>deferredEvents := [(''ready'', JObj [(''x'', JNum 1)])]\<rparr>
   \<and> listener_calls
        (trace (init (\<lambda>s. [])
           (addEventListener (dispatchEvent new_ComponentEngine ''ready'' (JObj [(''x'', JNum 1)])) ''ready'' 7)))
       = [ListenerCalled 7 (JObj [(''x'', JNum 1)])]"
proof -
  have h: "\<not> initialized new_ComponentEngine" by (simp add: new_ComponentEngine_def)
  have e: "deferredEvents new_ComponentEngine = []" "trace new_ComponentEngine = []"
    "listeners_for new_ComponentEngine ''ready'' = []"
    by (simp_all add: new_ComponentEngine_def listeners_for_def)
  note T = deferred_events_drained_in_order
               [OF h, of "''ready''" "JObj [(''x'', JNum 1)]" "\<lambda>s. []" 7, simplified e, simplified]
  from T have a: "dispatchEvent new_ComponentEngine ''ready'' (JObj [(''x'', JNum 1)]) =
       new_ComponentEngine\<lparr>deferredEvents := [(''ready'', JObj [(''x'', JNum 1)])]\<rparr>"
    by blast
  from T have b: "listener_calls
        (trace (init (\<lambda>s. [])
           (addEventListener (dispatchEvent new_ComponentEngine ''ready'' (JObj [(''x'', JNum 1)])) ''ready'' 7)))
       = [ListenerCalled 7 (JObj [(''x'', JNum 1)])]"
    by blast
  from h a b show ?thesis by (intro conjI)
qed

subsection \<open>Executing an action\<close>

lemma actions_length_cases: "actions_length acts = None \<or> actions_length acts = Some 0"
  by (simp add: actions_length_def split: option.splits action_entry.splits list.splits)

text \<open>
  C1, what the code does. The loop of \<^verbatim>\<open>executeAction\<close> over the callbacks of an action
  is bounded by \<^verbatim>\<open>this.actions.length\<close>, the length of the dictionary of actions and
  not of the array of callbacks, so its body never runs: whatever \<^verbatim>\<open>addAction\<close> has
  registered, the loop returns without a call. With a root \<open>A\<close> and its child \<open>B\<close>, each
  with a callback registered under \<open>save\<close>, executing \<open>save\<close> calls neither.
\<close>

theorem executeAction_calls_no_registered_callback:
  "call_actions (actions_length acts) cbs el c 0 tr = Returned tr
   \<and> map_of (actions (attrs (state_of (addAction ''save'' 100 (new_Component ''A'' 1 None True None None []))))) ''save''
       = Some (Callbacks [100])
   \<and> executeAction ''save'' 7
       (state_of (addAction ''save'' 100
          (new_Component ''A'' 1 None True None None
             [state_of (addAction ''save'' 200 (new_Component ''B'' 2 None True None None []))])))
       [] = Returned []"
proof (intro conjI)
  show "call_actions (actions_length acts) cbs el c 0 tr = Returned tr"
    using actions_length_cases [of acts]
    by (subst call_actions.simps) (auto simp: js_less_def)
  show "map_of (actions (attrs (state_of (addAction ''save'' 100 (new_Component ''A'' 1 None True None None []))))) ''save''
       = Some (Callbacks [100])"
    by (simp add: addAction_def new_Component_def upd_def)
  show "executeAction ''save'' 7
       (state_of (addAction ''save'' 100
          (new_Component ''A'' 1 None True None None
             [state_of (addAction ''save'' 200 (new_Component ''B'' 2 None True None None []))])))
       [] = Returned []"
    by (simp add: addAction_def new_Component_def upd_def actions_length_def call_actions.simps js_less_def)
qed

subsection \<open>Removing a component\<close>

text \<open>
  C3, what the code does. \<^verbatim>\<open>removeComponent\<close> deletes the key made from the component
  object, not the component's name: after registering \<open>Foo\<close>, initializing and removing
  it, the call has returned and \<^verbatim>\<open>getComponent\<close> still finds \<open>Foo\<close>.
\<close>

theorem removeComponent_keeps_component:
  "thrown (removeComponent (init (\<lambda>s. []) (addComponent new_ComponentEngine (new_Component ''Foo'' 1 None True None None [])))
             (ByName ''Foo'')) = None
   \<and> map_option (name \<circ> attrs)
        (getComponent
           (state_of (removeComponent
              (init (\<lambda>s. []) (addComponent new_ComponentEngine (new_Component ''Foo'' 1 None True None None [])))
              (ByName ''Foo'')))
           (ByName ''Foo'')) = Some ''Foo''
   \<and> map fst (components
        (state_of (removeComponent
           (init (\<lambda>s. []) (addComponent new_ComponentEngine (new_Component ''Foo'' 1 None True None None [])))
           (ByName ''Foo'')))) = [''Foo'']"
  by (simp add: removeComponent_def disableComponent_def getComponent_def init_def addComponent_def
      new_ComponentEngine_def new_Component_def modify_def upd_def Let_def)

subsection \<open>Disabling a component\<close>

text \<open>
  C4, what the code does. The loop that purges the listeners of a disabled component
  removes the element at \<open>i\<close> and then moves on to \<open>i + 1\<close>, so it skips the element
  that took the place of the removed one. With the listeners 51 and 52 of \<open>C\<close> next to
  each other, disabling \<open>C\<close> leaves 52 registered, and a later dispatch calls it.
\<close>

theorem disableComponent_leaves_adjacent_listener:
  "listeners_for (state_of two_adjacent_listeners) ''evt'' = [51, 52, 61]
   \<and> map (map_of (owner (state_of two_adjacent_listeners))) [51, 52, 61] = [Some 1, Some 1, Some 2]
   \<and> map_option (\<lambda>c. oid (attrs c)) (getComponent (state_of two_adjacent_listeners) (ByName ''C'')) = Some 1
   \<and> thrown (disableComponent (state_of two_adjacent_listeners) (ByName ''C'')) = None
   \<and> listeners_for (state_of (disableComponent (state_of two_adjacent_listeners) (ByName ''C''))) ''evt''
       = [52, 61]
   \<and> listener_calls
        (trace (dispatchEvent (state_of (disableComponent (state_of two_adjacent_listeners) (ByName ''C'')))
                  ''evt'' (JStr ''x'')))
       = [ListenerCalled 52 (JStr ''x''), ListenerCalled 61 (JStr ''x'')]"
  by (simp add: two_adjacent_listeners_def Component_addEventListener_def addEventListener_def
      getComponent_def init_def addComponent_def new_ComponentEngine_def new_Component_def Let_def
      listeners_for_def disableComponent_def dispatchEvent_def purge_listeners.simps splice1_def
      modify_def upd_def call_init_def call_remove_def quoted_def)

subsection \<open>Registering after initialization\<close>

text \<open>
  C6, what the code does. On an initialized engine \<^verbatim>\<open>addComponent\<close> asks the guard only
  and never resolves the selector: a component whose selector matches no element is
  enabled when it is registered after \<^verbatim>\<open>init\<close>, while the same component registered
  before \<^verbatim>\<open>init\<close> stays disabled.
\<close>

theorem addComponent_after_init_ignores_selector:
  "query (\<lambda>s. []) (Some ''.nope'') = []
   \<and> initialized (init (\<lambda>s. []) new_ComponentEngine)
   \<and> map_option (enabled \<circ> attrs)
        (getComponent
           (addComponent (init (\<lambda>s. []) new_ComponentEngine)
              (new_Component ''Foo'' 1 (Some ''.nope'') True None None []))
           (ByName ''Foo'')) = Some True
   \<and> map_option (enabled \<circ> attrs)
        (getComponent
           (init (\<lambda>s. [])
              (addComponent new_ComponentEngine (new_Component ''Foo'' 1 (Some ''.nope'') True None None [])))
           (ByName ''Foo'')) = Some False"
  by (simp add: query_def getComponent_def init_def addComponent_def tryToSetElements_def
      new_ComponentEngine_def new_Component_def upd_def Let_def)

subsection \<open>Activating a component and its subcomponents\<close>

lemma lifecycle_calls_append [simp]:
  "lifecycle_calls (xs @ ys) = lifecycle_calls xs @ lifecycle_calls ys"
  by (simp add: lifecycle_calls_def)

lemma lifecycle_calls_simps [simp]:
  "lifecycle_calls [] = []"
  "lifecycle_calls (GuardCalled i # tr) = GuardCalled i # lifecycle_calls tr"
  "lifecycle_calls (InitCalled i # tr) = InitCalled i # lifecycle_calls tr"
  "lifecycle_calls (ConsoleLog s # tr) = lifecycle_calls tr"
  "lifecycle_calls (ConsoleWarn s # tr) = lifecycle_calls tr"
  by (simp_all add: lifecycle_calls_def is_lifecycle_call_def)

lemma lifecycle_calls_call_init [simp]:
  "lifecycle_calls (call_init c) = [InitCalled (oid (attrs c))]"
  by (simp add: call_init_def split: option.splits)

lemma initComponent_attrs:
  "attrs (fst (initComponent c scopeStr tr)) = (attrs c)\<lparr>engine := True, enabled := True\<rparr>"
  by (cases c) (simp add: Let_def case_prod_beta)

lemma initComponent_lifecycle:
  "lifecycle_calls (snd (initComponent c scopeStr tr)) = lifecycle_calls tr @ activation_order c"
  "lifecycle_calls (snd (initSubcomponents p scopeStr cs tr)) = lifecycle_calls tr @ activation_order_subs cs"
proof (induction c scopeStr tr and p scopeStr cs tr rule: initComponent_initSubcomponents.induct)
  case (1 f subs scopeStr tr)
  then show ?case by (simp add: Let_def case_prod_beta)
next
  case (2 p scopeStr tr)
  then show ?case by simp
next
  case (3 p scopeStr g gsubs ss tr)
  then show ?case by (simp add: Let_def case_prod_beta)
qed

lemma initSubcomponents_length:
  "length (fst (initSubcomponents p scopeStr cs tr)) = length cs"
proof (induction cs arbitrary: tr)
  case Nil
  then show ?case by simp
next
  case (Cons s ss)
  then show ?case by (cases s) (simp add: Let_def case_prod_beta)
qed

lemma initSubcomponents_nth:
  "i < length cs \<Longrightarrow>
     (if guard (attrs (cs ! i))
      then attrs (fst (initSubcomponents p scopeStr cs tr) ! i) =
             (attrs (cs ! i))\<lparr>parent := Some p, engine := True, enabled := True\<rparr>
      else fst (initSubcomponents p scopeStr cs tr) ! i = cs ! i)"
proof (induction cs arbitrary: tr i)
  case Nil
  then show ?case by simp
next
  case (Cons s ss)
  obtain g gsubs where s: "s = Component g gsubs" by (cases s)
  show ?case
  proof (cases i)
    case 0
    then show ?thesis unfolding s by (simp add: Let_def case_prod_beta initComponent_attrs)
  next
    case (Suc j)
    with Cons.prems have j: "j < length ss" by simp
    show ?thesis unfolding s Suc using Cons.IH [OF j]
      by (simp add: Let_def case_prod_beta)
  qed
qed

text \<open>
  C7, as amended. Activating a component whose checks have passed sets its engine
  back-reference, calls its init and marks it enabled, then goes through its
  subcomponents in the order of declaration: each is asked for its guard, and a
  subcomponent whose guard passes gets this component as its parent and is activated in
  the same way before the next one is looked at, while a subcomponent whose guard fails
  is left as it was.
\<close>

theorem initComponent_activates_tree:
  "enabled (attrs (fst (initComponent c scopeStr tr)))
   \<and> engine (attrs (fst (initComponent c scopeStr tr)))
   \<and> lifecycle_calls (snd (initComponent c scopeStr tr)) = lifecycle_calls tr @ activation_order c
   \<and> length (subcomponents (fst (initComponent c scopeStr tr))) = length (subcomponents c)
   \<and> (\<forall>i < length (subcomponents c).
         if guard (attrs (subcomponents c ! i))
         then attrs (subcomponents (fst (initComponent c scopeStr tr)) ! i) =
                (attrs (subcomponents c ! i))\<lparr>parent := Some (oid (attrs c)), engine := True, enabled := True\<rparr>
         else subcomponents (fst (initComponent c scopeStr tr)) ! i = subcomponents c ! i)"
proof -
  obtain f subs where c: "c = Component f subs" by (cases c)
  have subs': "subcomponents (fst (initComponent c scopeStr tr)) =
      fst (initSubcomponents (oid f) scopeStr subs
             (tr @ call_init (Component (f\<lparr>engine := True\<rparr>) subs) @
              [ConsoleLog (''Component '' @ quoted scopeStr @ '' initialized.'')]))"
    unfolding c by (simp add: Let_def case_prod_beta)
  have sc: "subcomponents c = subs" "oid (attrs c) = oid f" unfolding c by simp_all
  have nth: "\<forall>i < length (subcomponents c).
         if guard (attrs (subcomponents c ! i))
         then attrs (subcomponents (fst (initComponent c scopeStr tr)) ! i) =
                (attrs (subcomponents c ! i))\<lparr>parent := Some (oid (attrs c)), engine := True, enabled := True\<rparr>
         else subcomponents (fst (initComponent c scopeStr tr)) ! i = subcomponents c ! i"
    unfolding subs' sc using initSubcomponents_nth by blast
  have len: "length (subcomponents (fst (initComponent c scopeStr tr))) = length (subcomponents c)"
    unfolding subs' sc by (rule initSubcomponents_length)
  have en: "enabled (attrs (fst (initComponent c scopeStr tr)))" "engine (attrs (fst (initComponent c scopeStr tr)))"
    by (simp_all add: initComponent_attrs)
  from en initComponent_lifecycle(1) len nth show ?thesis by blast
qed


theorem initComponent_activates_tree_witness:
  "lifecycle_calls
     (snd (initComponent
        (new_Component ''P'' 1 None True None None
           [new_Component ''K'' 2 (Some ''.nope'') True None None [],
            new_Component ''L'' 3 None False None None []]) ''P'' []))
     = [InitCalled 1, GuardCalled 2, InitCalled 2, GuardCalled 3]
   \<and> map (\<lambda>s. (enabled (attrs s), parent (attrs s)))
        (subcomponents (fst (initComponent
           (new_Component ''P'' 1 None True None None
              [new_Component ''K'' 2 (Some ''.nope'') True None None [],
               new_Component ''L'' 3 None False None None []]) ''P'' [])))
     = [(True, Some 1), (False, None)]"
proof -
  let ?K = "new_Component ''K'' 2 (Some ''.nope'') True None None []"
  let ?L = "new_Component ''L'' 3 None False None None []"
  let ?P = "new_Component ''P'' 1 None True None None [?K, ?L]"
  let ?r = "fst (initComponent ?P ''P'' [])"
  note T = initComponent_activates_tree [of ?P "''P''" "[]"]
  have subs: "subcomponents ?P = [?K, ?L]" by (simp add: new_Component_def)
  have g: "guard (attrs ?K)" "\<not> guard (attrs ?L)" "oid (attrs ?P) = 1" by (simp_all add: new_Component_def)
  from T have a: "lifecycle_calls (snd (initComponent ?P ''P'' [])) = [InitCalled 1, GuardCalled 2, InitCalled 2, GuardCalled 3]"
    by (simp add: new_Component_def)
  from T have len: "length (subcomponents ?r) = 2" unfolding subs by simp
  from T have nth: "\<forall>i < length (subcomponents ?P).
         if guard (attrs (subcomponents ?P ! i))
         then attrs (subcomponents ?r ! i) =
                (attrs (subcomponents ?P ! i))\<lparr>parent := Some (oid (attrs ?P)), engine := True, enabled := True\<rparr>
         else subcomponents ?r ! i = subcomponents ?P ! i"
    by blast
  from nth [rule_format, of 0] have k: "attrs (subcomponents ?r ! 0) = (attrs ?K)\<lparr>parent := Some 1, engine := True, enabled := True\<rparr>"
    unfolding subs using g by simp
  from nth [rule_format, of 1] have l: "subcomponents ?r ! 1 = ?L"
    unfolding subs using g by simp
  from len obtain x y where xy: "subcomponents ?r = [x, y]"
    by (cases "subcomponents ?r"; simp) (metis length_0_conv length_Suc_conv One_nat_def Suc_1 Suc_inject)
  from k l have "enabled (attrs x)" "parent (attrs x) = Some 1" "y = ?L" unfolding xy by simp_all
  then have b: "map (\<lambda>s. (enabled (attrs s), parent (attrs s))) (subcomponents ?r) = [(True, Some 1), (False, None)]"
    unfolding xy by (simp add: new_Component_def)
  from a b show ?thesis by (intro conjI)
qed

text \<open>
  C7, as stated, fails: the selector of a subcomponent is never resolved, and a
  subcomponent whose selector matches no element is activated when its guard passes.
\<close>

theorem child_with_unmatched_selector_counterexample:
  "query (\<lambda>s. []) (Some ''.nope'') = []
   \<and> map_option (\<lambda>c. map (\<lambda>s. (selector (attrs s), enabled (attrs s))) (subcomponents c))
        (getComponent
           (init (\<lambda>s. [])
              (addComponent new_ComponentEngine
                 (new_Component ''P'' 1 None True None None
                    [new_Component ''K'' 2 (Some ''.nope'') True None None []])))
           (ByName ''P''))
     = Some [(Some ''.nope'', True)]"
  by (simp add: query_def getComponent_def init_def addComponent_def
      new_ComponentEngine_def new_Component_def Let_def)

subsection \<open>The stored elements\<close>

lemma initComponent_elements_matched:
  "elements_matched (fst (initComponent c scopeStr tr)) = elements_matched c"
  "elements_matched_all (fst (initSubcomponents p scopeStr cs tr)) = elements_matched_all cs"
proof (induction c scopeStr tr and p scopeStr cs tr rule: initComponent_initSubcomponents.induct)
  case (1 f subs scopeStr tr)
  then show ?case by (simp add: Let_def case_prod_beta cong: option.case_cong)
next
  case (2 p scopeStr tr)
  then show ?case by simp
next
  case (3 p scopeStr g gsubs ss tr)
  then show ?case by (simp add: Let_def case_prod_beta cong: option.case_cong)
qed

lemma tryToSetElements_elements_matched:
  "elements_matched c \<Longrightarrow> truthy (selector (attrs c)) \<Longrightarrow> elements_matched (fst (tryToSetElements page c))"
  by (cases c) (simp add: tryToSetElements_def upd_def Let_def)

lemma upd_elements_matched:
  "elements_matched c \<Longrightarrow> elements (f (attrs c)) = elements (attrs c) \<Longrightarrow>
     selector (f (attrs c)) = selector (attrs c) \<Longrightarrow> elements_matched (upd f c)"
  by (cases c) (simp add: upd_def split: option.splits)

lemma init_components_elements_matched:
  "list_all (\<lambda>kc. elements_matched (snd kc)) cs \<Longrightarrow>
     list_all (\<lambda>kc. elements_matched (snd kc)) (fst (init_components page cs tr))"
proof (induction cs arbitrary: tr)
  case Nil
  then show ?case by simp
next
  case (Cons kc cs)
  obtain k c where kc: "kc = (k, c)" by (cases kc)
  from Cons.prems have c: "elements_matched c" and cs: "list_all (\<lambda>kc. elements_matched (snd kc)) cs"
    unfolding kc by simp_all
  show ?case
    unfolding kc using c Cons.IH [OF cs]
    by (simp add: Let_def case_prod_beta initComponent_elements_matched(1) tryToSetElements_elements_matched)
qed

lemma put_list_all: "list_all P m \<Longrightarrow> P (k, v) \<Longrightarrow> list_all P (put k v m)"
  by (induction m) auto

lemma delete_key_list_all: "list_all P m \<Longrightarrow> list_all P (delete_key k m)"
  by (induction m) auto

lemma modify_list_all:
  "list_all (\<lambda>kc. Q (snd kc)) m \<Longrightarrow> (\<And>v. Q v \<Longrightarrow> Q (f v)) \<Longrightarrow> list_all (\<lambda>kc. Q (snd kc)) (modify k f m)"
  by (induction m) (auto simp: modify_def)

lemma map_of_list_all: "list_all (\<lambda>kc. Q (snd kc)) m \<Longrightarrow> map_of m k = Some v \<Longrightarrow> Q v"
  by (induction m) (auto split: if_splits)

lemma init_elements_matched: "engine_elements_matched w \<Longrightarrow> engine_elements_matched (init page w)"
  by (simp add: engine_elements_matched_def init_unfold init_components_elements_matched)

lemma addComponent_elements_matched:
  "engine_elements_matched w \<Longrightarrow> elements_matched c \<Longrightarrow> engine_elements_matched (addComponent w c)"
  by (simp add: engine_elements_matched_def addComponent_def Let_def case_prod_beta put_list_all
      initComponent_elements_matched(1) split: option.splits)

lemma enableComponent_elements_matched:
  assumes "engine_elements_matched w"
  shows "engine_elements_matched (state_of (enableComponent w arg))"
proof (cases "getComponent w arg")
  case None
  then show ?thesis using assms by (simp add: enableComponent_def)
next
  case (Some c)
  with assms have c: "elements_matched c"
    unfolding engine_elements_matched_def getComponent_def by (rule map_of_list_all)
  show ?thesis
    using assms Some
    by (simp add: enableComponent_def engine_elements_matched_def Let_def case_prod_beta
        modify_list_all initComponent_elements_matched(1) c)
qed

lemma disableComponent_elements_matched:
  assumes "engine_elements_matched w"
  shows "engine_elements_matched (state_of (disableComponent w arg))"
proof (cases "getComponent w arg")
  case None
  then show ?thesis using assms by (simp add: disableComponent_def)
next
  case (Some c)
  show ?thesis
    using assms Some
    by (simp add: disableComponent_def engine_elements_matched_def modify_list_all upd_elements_matched)
qed

text \<open>
  C2, as amended. The stored elements of a component, when set, are a non-empty match
  of a selector that the component declares. This holds of a new engine and of a new
  component whose subcomponents have it, and \<^verbatim>\<open>init\<close>, \<^verbatim>\<open>addComponent\<close>,
  \<^verbatim>\<open>enableComponent\<close> and \<^verbatim>\<open>disableComponent\<close> keep it for every registered component
  and all its subcomponents.
\<close>

theorem stored_elements_invariant:
  "engine_elements_matched new_ComponentEngine
   \<and> elements_matched (new_Component n i sel g ini rem subs) = elements_matched_all subs
   \<and> (engine_elements_matched w \<longrightarrow>
        engine_elements_matched (init page w)
        \<and> (elements_matched c \<longrightarrow> engine_elements_matched (addComponent w c))
        \<and> engine_elements_matched (state_of (enableComponent w arg))
        \<and> engine_elements_matched (state_of (disableComponent w arg)))"
  by (simp add: init_elements_matched addComponent_elements_matched enableComponent_elements_matched
      disableComponent_elements_matched)
     (simp add: engine_elements_matched_def new_ComponentEngine_def new_Component_def)


theorem stored_elements_invariant_witness:
  "engine_elements_matched
     (state_of (disableComponent
        (init (\<lambda>s. if s = ''.a'' then [5] else [])
           (addComponent new_ComponentEngine (new_Component ''Foo'' 1 (Some ''.a'') True None None [])))
        (ByName ''Foo'')))
   \<and> map_option (\<lambda>c. elements (attrs c))
        (getComponent
           (init (\<lambda>s. if s = ''.a'' then [5] else [])
              (addComponent new_ComponentEngine (new_Component ''Foo'' 1 (Some ''.a'') True None None [])))
           (ByName ''Foo''))
       = Some (Some [5])"
proof -
  let ?page = "\<lambda>s. if s = ''.a'' then [5::nat] else []"
  let ?Foo = "new_Component ''Foo'' 1 (Some ''.a'') True None None []"
  note T = stored_elements_invariant
  from T [of "''Foo''" 1 "Some ''.a''" True None None "[]"]
  have foo: "elements_matched ?Foo" by simp
  from T have w0: "engine_elements_matched new_ComponentEngine" by blast
  from T [of _ _ _ _ _ _ _ new_ComponentEngine _ ?Foo] w0 foo
  have w1: "engine_elements_matched (addComponent new_ComponentEngine ?Foo)" by blast
  from T [of _ _ _ _ _ _ _ "addComponent new_ComponentEngine ?Foo" ?page] w1
  have w2: "engine_elements_matched (init ?page (addComponent new_ComponentEngine ?Foo))" by blast
  from T [of _ _ _ _ _ _ _ "init ?page (addComponent new_ComponentEngine ?Foo)" _ _ "ByName ''Foo''"] w2
  have w3: "engine_elements_matched
     (state_of (disableComponent (init ?page (addComponent new_ComponentEngine ?Foo)) (ByName ''Foo'')))"
    by blast
  have v: "map_option (\<lambda>c. elements (attrs c))
        (getComponent (init ?page (addComponent new_ComponentEngine ?Foo)) (ByName ''Foo'')) = Some (Some [5])"
    by (simp add: query_def getComponent_def init_def addComponent_def tryToSetElements_def
        new_ComponentEngine_def new_Component_def upd_def Let_def)
  from w3 v show ?thesis by (intro conjI)
qed

text \<open>
  C2, as stated, fails in both directions. A component without a selector is enabled by
  \<^verbatim>\<open>init\<close> and has no stored elements; a component whose selector matched keeps its
  stored elements after it has been disabled.
\<close>

theorem bound_iff_enabled_counterexample:
  "map_option (\<lambda>c. (elements (attrs c), enabled (attrs c), selector (attrs c), spec_bound_invariant (\<lambda>s. []) c))
     (getComponent
        (init (\<lambda>s. []) (addComponent new_ComponentEngine (new_Component ''Bar'' 1 None True None None [])))
        (ByName ''Bar''))
     = Some (None, True, None, False)
   \<and> map_option
       (\<lambda>c. (elements (attrs c), enabled (attrs c), spec_bound_invariant (\<lambda>s. if s = ''.a'' then [5] else []) c))
       (getComponent
          (state_of (disableComponent
             (init (\<lambda>s. if s = ''.a'' then [5] else [])
                (addComponent new_ComponentEngine (new_Component ''Foo'' 2 (Some ''.a'') True None None [])))
             (ByName ''Foo'')))
          (ByName ''Foo''))
     = Some (Some [5], False, False)"
  by (simp add: spec_bound_invariant_def query_def getComponent_def init_def addComponent_def
      disableComponent_def tryToSetElements_def modify_def
      new_ComponentEngine_def new_Component_def upd_def Let_def)

end
